theory Spec2Isabelle
  imports Main "HOL-Library.Word" "HOL-Library.Sublist"
begin

section \<open>JavaScript strings\<close>

text \<open>
  A JavaScript string is a sequence of UTF-16 code units.  Literals of the script are
  ASCII and are written through \<open>js\<close>.
\<close>

type_synonym jschar = "16 word"
type_synonym jsstring = "jschar list"

definition js :: "string \<Rightarrow> jsstring" where
  "js s = map of_char s"

text \<open>
  The characters matched by the regular-expression class \<^verbatim>\<open>\s\<close> and stripped by
  \<^verbatim>\<open>String.prototype.trim\<close>: ECMAScript WhiteSpace (TAB, VT, FF, SP, NBSP, ZWNBSP and
  the Unicode space separators) together with LineTerminator (LF, CR, LS, PS).  Both
  operations use the same set.
\<close>

definition isWhitespace :: "jschar \<Rightarrow> bool" where
  "isWhitespace c \<longleftrightarrow>
     c = 0x09 \<or> c = 0x0A \<or> c = 0x0B \<or> c = 0x0C \<or> c = 0x0D \<or> c = 0x20 \<or> c = 0xA0 \<or>
     c = 0x1680 \<or> (0x2000 \<le> c \<and> c \<le> 0x200A) \<or> c = 0x2028 \<or> c = 0x2029 \<or>
     c = 0x202F \<or> c = 0x205F \<or> c = 0x3000 \<or> c = 0xFEFF"

text \<open>\<^verbatim>\<open>s.trim()\<close>: whitespace is removed from both ends.\<close>

definition trim :: "jsstring \<Rightarrow> jsstring" where
  "trim s = rev (dropWhile isWhitespace (rev (dropWhile isWhitespace s)))"

text \<open>
  \<^verbatim>\<open>s.replace(/\s\s+/g, " ")\<close>: the string is scanned from the left; where two
  whitespace characters stand next to each other the greedy match takes the whole run and
  one space is written for it, and the scan goes on after the run; any other character is
  copied.
\<close>

function replaceWhitespaceRuns :: "jsstring \<Rightarrow> jsstring" where
  "replaceWhitespaceRuns [] = []"
| "replaceWhitespaceRuns [c] = [c]"
| "replaceWhitespaceRuns (c # d # cs) =
     (if isWhitespace c \<and> isWhitespace d
      then 0x20 # replaceWhitespaceRuns (dropWhile isWhitespace cs)
      else c # replaceWhitespaceRuns (d # cs))"
  by pat_completeness auto
termination
  by (relation "measure length") (auto simp: length_dropWhile_le le_SucI less_Suc_eq_le)

text \<open>Line 85 of the script: \<^verbatim>\<open>text().trim().replace(/\s\s+/g, " ")\<close>.\<close>

definition normalizeWhitespace :: "jsstring \<Rightarrow> jsstring" where
  "normalizeWhitespace s = replaceWhitespaceRuns (trim s)"

section \<open>Dates\<close>

text \<open>
  A moment is either invalid or a calendar date (the script only uses dates: year, month
  1..12, day of the month).
\<close>

datatype moment = Invalid | Valid (year: nat) (month: nat) (day: nat)

definition isLeapYear :: "nat \<Rightarrow> bool" where
  "isLeapYear y \<longleftrightarrow> (y mod 4 = 0 \<and> y mod 100 \<noteq> 0) \<or> y mod 400 = 0"

definition daysInMonth :: "nat \<Rightarrow> nat \<Rightarrow> nat" where
  "daysInMonth y m =
     (if m = 2 then (if isLeapYear y then 29 else 28)
      else if m = 4 \<or> m = 6 \<or> m = 9 \<or> m = 11 then 30 else 31)"

definition isDigit :: "jschar \<Rightarrow> bool" where
  "isDigit c \<longleftrightarrow> 0x30 \<le> c \<and> c \<le> 0x39"

definition toInt :: "jsstring \<Rightarrow> nat" where
  "toInt ds = foldl (\<lambda>a c. 10 * a + (unat c - 48)) 0 ds"

text \<open>The token \<^verbatim>\<open>D\<close>: one or two digits, two when two are there.\<close>

fun matchD :: "jsstring \<Rightarrow> (jsstring \<times> jsstring) option" where
  "matchD [] = None"
| "matchD [c] = (if isDigit c then Some ([c], []) else None)"
| "matchD (c # d # r) =
     (if isDigit c \<and> isDigit d then Some ([c, d], r)
      else if isDigit c then Some ([c], d # r)
      else None)"

text \<open>The tokens \<^verbatim>\<open>MM\<close> and \<^verbatim>\<open>YYYY\<close> in strict mode: exactly \<open>n\<close> digits.\<close>

definition matchDigits :: "nat \<Rightarrow> jsstring \<Rightarrow> (jsstring \<times> jsstring) option" where
  "matchDigits n s =
     (if n \<le> length s \<and> list_all isDigit (take n s) then Some (take n s, drop n s) else None)"

text \<open>The separator \<^verbatim>\<open>/\<close> of the pattern.\<close>

fun matchSlash :: "jsstring \<Rightarrow> jsstring option" where
  "matchSlash [] = None"
| "matchSlash (c # r) = (if c = 0x2F then Some r else None)"

text \<open>
  Modelled from the spec: the strict parser of the moment library,
  \<^verbatim>\<open>moment(value, "D/MM/YYYY", true)\<close>, is not part of the script.  The spec (4.1, 8, 9)
  and the script's comment on line 99 give its contract: the day may be written with or
  without a leading zero, the month has two digits and the year four, the separators
  and the end of the input must match exactly, the date must exist in the calendar, and a
  failure gives the invalid moment, never an exception.
\<close>

definition parseDateStrict :: "jsstring \<Rightarrow> moment" where
  "parseDateStrict s =
     (case matchD s of
        None \<Rightarrow> Invalid
      | Some (dd, r1) \<Rightarrow>
     (case matchSlash r1 of
        None \<Rightarrow> Invalid
      | Some r2 \<Rightarrow>
     (case matchDigits 2 r2 of
        None \<Rightarrow> Invalid
      | Some (mm, r3) \<Rightarrow>
     (case matchSlash r3 of
        None \<Rightarrow> Invalid
      | Some r4 \<Rightarrow>
     (case matchDigits 4 r4 of
        None \<Rightarrow> Invalid
      | Some (yyyy, r5) \<Rightarrow>
          (let y = toInt yyyy; m = toInt mm; d = toInt dd
           in if r5 = [] \<and> 1 \<le> m \<and> m \<le> 12 \<and> 1 \<le> d \<and> d \<le> daysInMonth y m
              then Valid y m d else Invalid))))))"

definition digitChar :: "nat \<Rightarrow> jschar" where
  "digitChar n = of_nat (48 + n mod 10)"

definition pad2 :: "nat \<Rightarrow> jsstring" where
  "pad2 n = [digitChar (n div 10), digitChar n]"

definition pad4 :: "nat \<Rightarrow> jsstring" where
  "pad4 n = [digitChar (n div 1000), digitChar (n div 100), digitChar (n div 10), digitChar n]"

text \<open>
  \<^verbatim>\<open>format\<close> of the moment library, for the two patterns of the script.  A valid date
  is rendered with zero-padded fields (years of the script have four digits).  Of an
  invalid moment the library renders its locale's text for an invalid date, which is
  \<^verbatim>\<open>Invalid date\<close>; \<^verbatim>\<open>format\<close> never throws and never gives the empty string.
\<close>

fun format_YYYY_MM_DD :: "moment \<Rightarrow> jsstring" where
  "format_YYYY_MM_DD Invalid = js ''Invalid date''"
| "format_YYYY_MM_DD (Valid y m d) = pad4 y @ js ''-'' @ pad2 m @ js ''-'' @ pad2 d"

fun format_DD_MM_YYYY :: "moment \<Rightarrow> jsstring" where
  "format_DD_MM_YYYY Invalid = js ''Invalid date''"
| "format_DD_MM_YYYY (Valid y m d) = pad2 d @ js ''/'' @ pad2 m @ js ''/'' @ pad4 y"

text \<open>\<^verbatim>\<open>subtract(1, "months")\<close>: the month before, the day clamped to its length.\<close>

fun subtractOneMonth :: "moment \<Rightarrow> moment" where
  "subtractOneMonth Invalid = Invalid"
| "subtractOneMonth (Valid y m d) =
     (if m = 1 then Valid (y - 1) 12 (min d 31)
      else Valid y (m - 1) (min d (daysInMonth y (m - 1))))"

text \<open>
  Values of the JavaScript expressions in the condition on line 112.  The script reads
  the property \<^verbatim>\<open>receivedDate.isValid\<close> and does not call it: the value is the method
  itself, a function object, whatever the moment is.
\<close>

datatype jsvalue = JSBoolean bool | JSFunction

fun toBoolean :: "jsvalue \<Rightarrow> bool" where
  "toBoolean (JSBoolean b) = b"
| "toBoolean JSFunction = True"

definition isValid_property :: "moment \<Rightarrow> jsvalue" where
  "isValid_property m = JSFunction"

section \<open>The parsed page\<close>

text \<open>
  The document that \<^verbatim>\<open>cheerio.load\<close> builds: text, comments and elements; of an
  element the selectors of the script read the tag name and the class names.
\<close>

datatype node =
    Text jsstring
  | Comment jsstring
  | Element (tagName: jsstring) (classNames: "jsstring list") (childNodes: "node list")

fun isTag :: "node \<Rightarrow> bool" where
  "isTag (Element t cl ch) = True"
| "isTag n = False"

text \<open>A selector \<^verbatim>\<open>tag.class\<close>, such as \<^verbatim>\<open>h4.non_table_headers\<close>.\<close>

fun matchesSelector :: "jsstring \<Rightarrow> jsstring \<Rightarrow> node \<Rightarrow> bool" where
  "matchesSelector t c (Element tn cl ch) = (tn = t \<and> c \<in> set cl)"
| "matchesSelector t c n = False"

text \<open>\<^verbatim>\<open>text()\<close> of one node: the text below it, in document order.\<close>

fun textContent :: "node \<Rightarrow> jsstring" where
  "textContent (Text s) = s"
| "textContent (Comment s) = []"
| "textContent (Element t cl ch) = concat (map textContent ch)"

text \<open>\<^verbatim>\<open>text()\<close> of a selection: the texts of its elements, joined.\<close>

definition text_sel :: "node list \<Rightarrow> jsstring" where
  "text_sel sel = concat (map textContent sel)"

text \<open>
  \<^verbatim>\<open>$("h4.non_table_headers").get()\<close>: the matching elements of the whole document in
  document order.  Each is paired with the nodes that follow it under the same parent,
  which is what \<^verbatim>\<open>next\<close> looks at.
\<close>

fun selectAll :: "jsstring \<Rightarrow> jsstring \<Rightarrow> node list \<Rightarrow> (node \<times> node list) list" where
  "selectAll t c [] = []"
| "selectAll t c (Text s # ns) = selectAll t c ns"
| "selectAll t c (Comment s # ns) = selectAll t c ns"
| "selectAll t c (Element tn cl ch # ns) =
     (if matchesSelector t c (Element tn cl ch) then [(Element tn cl ch, ns)] else [])
     @ selectAll t c ch @ selectAll t c ns"

text \<open>\<^verbatim>\<open>find("tag.class")\<close>: the matching descendants, in document order.\<close>

fun findAll :: "jsstring \<Rightarrow> jsstring \<Rightarrow> node list \<Rightarrow> node list" where
  "findAll t c [] = []"
| "findAll t c (Text s # ns) = findAll t c ns"
| "findAll t c (Comment s # ns) = findAll t c ns"
| "findAll t c (Element tn cl ch # ns) =
     (if matchesSelector t c (Element tn cl ch) then [Element tn cl ch] else [])
     @ findAll t c ch @ findAll t c ns"

fun find_sel :: "jsstring \<Rightarrow> jsstring \<Rightarrow> node \<Rightarrow> node list" where
  "find_sel t c (Element tn cl ch) = findAll t c ch"
| "find_sel t c n = []"

text \<open>\<^verbatim>\<open>children("tag.class")\<close>: the matching child elements.\<close>

fun children_sel :: "jsstring \<Rightarrow> jsstring \<Rightarrow> node \<Rightarrow> node list" where
  "children_sel t c (Element tn cl ch) = filter (matchesSelector t c) ch"
| "children_sel t c n = []"

text \<open>
  \<^verbatim>\<open>next("div")\<close> of one element: the sibling element directly after it (text and
  comments between them are passed over), kept when it is a \<^verbatim>\<open>div\<close>.  The selection
  has one element or none.
\<close>

fun nextDiv :: "node list \<Rightarrow> node list" where
  "nextDiv [] = []"
| "nextDiv (Text s # ns) = nextDiv ns"
| "nextDiv (Comment s # ns) = nextDiv ns"
| "nextDiv (Element tn cl ch # ns) = (if tn = js ''div'' then [Element tn cl ch] else [])"

section \<open>Extraction\<close>

text \<open>The variables of one pass of the loop over the headings (lines 85 to 88).\<close>

record headerVars =
  address_v :: jsstring
  applicationNumber_v :: jsstring
  reason_v :: jsstring
  receivedDate_v :: moment

text \<open>Lines 94 to 99: the chain of comparisons with the three labels.\<close>

definition assignField :: "jsstring \<Rightarrow> jsstring \<Rightarrow> headerVars \<Rightarrow> headerVars" where
  "assignField key val v =
     (if key = js ''Type of Work'' then v\<lparr>reason_v := val\<rparr>
      else if key = js ''Application No.'' then v\<lparr>applicationNumber_v := val\<rparr>
      else if key = js ''Date Lodged'' then v\<lparr>receivedDate_v := parseDateStrict val\<rparr>
      else v)"

text \<open>Lines 92 and 93: key and value of a paragraph.\<close>

definition rowKey :: "node \<Rightarrow> jsstring" where
  "rowKey p = trim (text_sel (children_sel (js ''span'') (js ''key'') p))"

definition rowValue :: "node \<Rightarrow> jsstring" where
  "rowValue p = trim (text_sel (children_sel (js ''span'') (js ''inputField'') p))"

definition scanParagraph :: "headerVars \<Rightarrow> node \<Rightarrow> headerVars" where
  "scanParagraph v p = assignField (rowKey p) (rowValue p) v"

text \<open>Line 91: the loop over the paragraphs of one \<^verbatim>\<open>div\<close>.\<close>

definition scanDiv :: "headerVars \<Rightarrow> node \<Rightarrow> headerVars" where
  "scanDiv v d = foldl scanParagraph v (find_sel (js ''p'') (js ''rowDataOnly'') d)"

text \<open>Lines 85 to 101 for one heading and the nodes after it.\<close>

definition scanHeader :: "node \<times> node list \<Rightarrow> headerVars" where
  "scanHeader h =
     foldl scanDiv
       \<lparr>address_v = normalizeWhitespace (text_sel [fst h]),
        applicationNumber_v = [],
        reason_v = [],
        receivedDate_v = Invalid\<rparr>
       (nextDiv (snd h))"

section \<open>The database and the run\<close>

record developmentApplication =
  applicationNumber :: jsstring
  address :: jsstring
  reason :: jsstring
  informationUrl :: jsstring
  receivedDate :: jsstring
  scrapeDate :: jsstring

definition DevelopmentApplicationMainUrl :: jsstring where
  "DevelopmentApplicationMainUrl =
     js ''https://ecouncil.npsp.sa.gov.au/eservice/daEnquiryInit.do?doc_typ=155&nodeNum=10209''"

text \<open>
  \<^verbatim>\<open>encodeURIComponent\<close> on ASCII text, which is all the script gives it (digits and
  slashes): letters, digits and \<^verbatim>\<open>-_.!~*'()\<close> stay, any other character becomes
  \<^verbatim>\<open>%XX\<close>.
\<close>

definition hexDigit :: "nat \<Rightarrow> jschar" where
  "hexDigit n = of_nat (if n < 10 then 48 + n else 55 + n)"

definition isUnreserved :: "jschar \<Rightarrow> bool" where
  "isUnreserved c \<longleftrightarrow>
     (0x41 \<le> c \<and> c \<le> 0x5A) \<or> (0x61 \<le> c \<and> c \<le> 0x7A) \<or> (0x30 \<le> c \<and> c \<le> 0x39) \<or>
     c = 0x2D \<or> c = 0x5F \<or> c = 0x2E \<or> c = 0x21 \<or> c = 0x7E \<or> c = 0x2A \<or> c = 0x27 \<or>
     c = 0x28 \<or> c = 0x29"

definition encodeURIComponentAscii :: "jsstring \<Rightarrow> jsstring" where
  "encodeURIComponentAscii s =
     concat (map (\<lambda>c. if isUnreserved c then [c]
                       else [0x25, hexDigit (unat c div 16), hexDigit (unat c mod 16)]) s)"

text \<open>
  Line 77: the two place holders of the search address are replaced by the two dates.
  The template has each place holder once.
\<close>

definition DevelopmentApplicationSearchUrl :: "jsstring \<Rightarrow> jsstring \<Rightarrow> jsstring" where
  "DevelopmentApplicationSearchUrl dateFrom dateTo =
     js ''https://ecouncil.npsp.sa.gov.au/eservice/daEnquiry.do?number=&lodgeRangeType=on&dateFrom=''
     @ dateFrom @ js ''&dateTo='' @ dateTo
     @ js ''&detDateFromString=&detDateToString=&streetName=&suburb=0&unitNum=&houseNum=0%0D%0A%09%09%09%09%09%09&planNumber=&strataPlan=&lotNumber=&propertyName=&searchMode=A&submitButton=Search''"

text \<open>Lines 75 to 77 for the date of the clock.\<close>

definition developmentApplicationSearchUrl :: "moment \<Rightarrow> jsstring" where
  "developmentApplicationSearchUrl today =
     (let dateFrom = encodeURIComponentAscii (format_DD_MM_YYYY (subtractOneMonth today));
          dateTo = encodeURIComponentAscii (format_DD_MM_YYYY today)
      in DevelopmentApplicationSearchUrl dateFrom dateTo)"

datatype error = RequestError | SqliteError

type_synonym database = "jsstring \<rightharpoonup> developmentApplication"

text \<open>
  What the run does to the outside: the requests, each with the cookie jar it is given,
  and the calls of \<^verbatim>\<open>insertRow\<close>.
\<close>

datatype 'jar event = HttpGet jsstring 'jar | InsertRow developmentApplication

text \<open>
  The outside of the script: the transport (a request with a jar answers with the body
  and leaves the jar updated, or fails), the fresh jar of \<^verbatim>\<open>request.jar()\<close>, the parser
  of the page, the clock (one date for the whole run), the rows already in the table, and
  the writes that sqlite rejects.
\<close>

record 'jar environment =
  request :: "jsstring \<Rightarrow> 'jar \<Rightarrow> error + (jsstring \<times> 'jar)"
  newJar :: 'jar
  cheerioLoad :: "jsstring \<Rightarrow> node list"
  now :: moment
  storedData :: database
  sqliteFails :: "developmentApplication \<Rightarrow> bool"

text \<open>\<^verbatim>\<open>insert or replace\<close> with the application number as the primary key.\<close>

definition insertRow ::
  "'jar environment \<Rightarrow> database \<Rightarrow> developmentApplication \<Rightarrow> error + database" where
  "insertRow env db r =
     (if sqliteFails env r then Inl SqliteError else Inr (db(applicationNumber r \<mapsto> r)))"

text \<open>Lines 106 to 113: the row that is written for the variables of a heading.\<close>

definition makeRow :: "'jar environment \<Rightarrow> headerVars \<Rightarrow> developmentApplication" where
  "makeRow env v =
     \<lparr>applicationNumber = applicationNumber_v v,
      address = address_v v,
      reason = reason_v v,
      informationUrl = DevelopmentApplicationMainUrl,
      receivedDate =
        (if toBoolean (isValid_property (receivedDate_v v))
         then format_YYYY_MM_DD (receivedDate_v v) else []),
      scrapeDate = format_YYYY_MM_DD (now env)\<rparr>"

text \<open>Line 105: the test before the write.\<close>

definition hasNumberAndAddress :: "headerVars \<Rightarrow> bool" where
  "hasNumberAndAddress v \<longleftrightarrow> applicationNumber_v v \<noteq> [] \<and> address_v v \<noteq> []"

text \<open>
  Lines 84 to 115: the loop over the headings.  A rejected write ends the run, as the
  awaited promise throws.
\<close>

fun processHeaders ::
  "'jar environment \<Rightarrow> (node \<times> node list) list \<Rightarrow> database
     \<Rightarrow> 'jar event list \<times> (error + database)" where
  "processHeaders env [] db = ([], Inr db)"
| "processHeaders env (h # hs) db =
     (let v = scanHeader h in
      if hasNumberAndAddress v then
        (case insertRow env db (makeRow env v) of
           Inl e \<Rightarrow> ([InsertRow (makeRow env v)], Inl e)
         | Inr db' \<Rightarrow>
             (case processHeaders env hs db' of
                (evs, res) \<Rightarrow> (InsertRow (makeRow env v) # evs, res)))
      else processHeaders env hs db)"

text \<open>Lines 62 to 116.\<close>

definition main :: "'jar environment \<Rightarrow> 'jar event list \<times> (error + database)" where
  "main env =
     (let database = storedData env;
          jar = newJar env
      in case request env DevelopmentApplicationMainUrl jar of
           Inl e \<Rightarrow> ([HttpGet DevelopmentApplicationMainUrl jar], Inl e)
         | Inr (mainBody, jar1) \<Rightarrow>
             (let searchUrl = developmentApplicationSearchUrl (now env)
              in case request env searchUrl jar1 of
                   Inl e \<Rightarrow>
                     ([HttpGet DevelopmentApplicationMainUrl jar, HttpGet searchUrl jar1], Inl e)
                 | Inr (body, jar2) \<Rightarrow>
                     (case processHeaders env
                             (selectAll (js ''h4'') (js ''non_table_headers'') (cheerioLoad env body))
                             database of
                        (evs, res) \<Rightarrow>
                          (HttpGet DevelopmentApplicationMainUrl jar
                           # HttpGet searchUrl jar1 # evs, res))))"

section \<open>Reading a run\<close>

text \<open>The rows handed to \<^verbatim>\<open>insertRow\<close> during a run, in order.\<close>

fun insertedRows :: "'jar event list \<Rightarrow> developmentApplication list" where
  "insertedRows [] = []"
| "insertedRows (InsertRow r # evs) = r # insertedRows evs"
| "insertedRows (HttpGet u j # evs) = insertedRows evs"

text \<open>The requests of a run, in order, with the jar each was given.\<close>

fun httpRequests :: "'jar event list \<Rightarrow> (jsstring \<times> 'jar) list" where
  "httpRequests [] = []"
| "httpRequests (InsertRow r # evs) = httpRequests evs"
| "httpRequests (HttpGet u j # evs) = (u, j) # httpRequests evs"

text \<open>No two whitespace characters stand next to each other.\<close>

fun noAdjacentWhitespace :: "jsstring \<Rightarrow> bool" where
  "noAdjacentWhitespace [] = True"
| "noAdjacentWhitespace [c] = True"
| "noAdjacentWhitespace (c # d # cs) =
     (\<not> (isWhitespace c \<and> isWhitespace d) \<and> noAdjacentWhitespace (d # cs))"

section \<open>Pages and an environment for the examples\<close>

definition dataRow :: "string \<Rightarrow> string \<Rightarrow> node" where
  "dataRow k v =
     Element (js ''p'') [js ''rowDataOnly'']
       [Element (js ''span'') [js ''key''] [Text (js k)],
        Element (js ''span'') [js ''inputField''] [Text (js v)]]"

definition heading :: "string \<Rightarrow> node" where
  "heading a = Element (js ''h4'') [js ''non_table_headers''] [Text (js a)]"

definition detailsBlock :: "node list \<Rightarrow> node" where
  "detailsBlock rows = Element (js ''div'') [] rows"

text \<open>One heading with the three rows; the month of the date has one digit.\<close>

definition carportPage :: "node list" where
  "carportPage =
     [heading ''12  Smith   St'',
      detailsBlock [dataRow ''Application No.'' ''123/2023'',
                    dataRow ''Type of Work'' ''Carport'',
                    dataRow ''Date Lodged'' ''3/1/2023'']]"

text \<open>The same page with the month written with two digits.\<close>

definition carportPageTwoDigitMonth :: "node list" where
  "carportPageTwoDigitMonth =
     [heading ''12  Smith   St'',
      detailsBlock [dataRow ''Application No.'' ''123/2023'',
                    dataRow ''Type of Work'' ''Carport'',
                    dataRow ''Date Lodged'' ''3/01/2023'']]"

text \<open>A heading whose block has no date row, and one whose date is not a date.\<close>

definition noDatePage :: "node list" where
  "noDatePage =
     [heading ''1 Main St'',
      detailsBlock [dataRow ''Application No.'' ''1/2023'']]"

definition badDatePage :: "node list" where
  "badDatePage =
     [heading ''1 Main St'',
      detailsBlock [dataRow ''Application No.'' ''1/2023'',
                    dataRow ''Date Lodged'' ''not a date'']]"

text \<open>A heading followed by two blocks; the application number is in the second.\<close>

definition twoBlocksPage :: "node list" where
  "twoBlocksPage =
     [heading ''12 Smith St'',
      detailsBlock [dataRow ''Type of Work'' ''Carport''],
      detailsBlock [dataRow ''Application No.'' ''123/2023'']]"

text \<open>Two headings; the second has no application number.\<close>

definition twoHeadingsPage :: "node list" where
  "twoHeadingsPage =
     [heading ''12 Smith St'',
      detailsBlock [dataRow ''Application No.'' ''123/2023''],
      heading ''14 Smith St'',
      detailsBlock [dataRow ''Type of Work'' ''Verandah'']]"

text \<open>
  An environment that serves the given page: every request succeeds and adds the address
  it was sent to into the jar, the date is 5 August 2023, the table is empty and sqlite
  accepts every write.
\<close>

definition fixedEnvironment :: "node list \<Rightarrow> jsstring list environment" where
  "fixedEnvironment page =
     \<lparr>request = (\<lambda>url jar. Inr ([], jar @ [url])),
      newJar = [],
      cheerioLoad = (\<lambda>body. page),
      now = Valid 2023 8 5,
      storedData = Map.empty,
      sqliteFails = (\<lambda>r. False)\<rparr>"

section \<open>Whitespace: trimming and runs\<close>

lemma last_dropWhile_nonempty:
  "dropWhile P xs \<noteq> [] \<Longrightarrow> last (dropWhile P xs) = last xs"
  by (induction xs) (auto split: if_splits)

lemma dropWhile_last_nonempty:
  "xs \<noteq> [] \<Longrightarrow> \<not> P (last xs) \<Longrightarrow> dropWhile P xs \<noteq> []"
  by (induction xs) (auto split: if_splits)

lemma dropWhile_id: "xs = [] \<or> \<not> P (hd xs) \<Longrightarrow> dropWhile P xs = xs"
  by (cases xs) auto

lemma dropWhile_hd_or_Nil:
  "dropWhile P xs = [] \<or> \<not> P (hd (dropWhile P xs))"
  using hd_dropWhile by blast

lemma dropWhile_append_last:
  "u \<noteq> [] \<Longrightarrow> \<not> P (last u) \<Longrightarrow> dropWhile P (u @ x) = dropWhile P u @ x"
  by (rule dropWhile_append1 [of "last u"]) auto

lemma trim_ends:
  "trim s = [] \<or> (\<not> isWhitespace (hd (trim s)) \<and> \<not> isWhitespace (last (trim s)))"
proof (cases "trim s = []")
  case True
  then show ?thesis by simp
next
  case False
  define ys where "ys = dropWhile isWhitespace s"
  define zs where "zs = dropWhile isWhitespace (rev ys)"
  have t: "trim s = rev zs" by (simp add: trim_def ys_def zs_def)
  with False have zs: "zs \<noteq> []" by simp
  then have ys: "ys \<noteq> []" by (auto simp: zs_def)
  have "last (trim s) = hd zs" using zs t by (simp add: last_rev)
  moreover have "\<not> isWhitespace (hd zs)" using zs unfolding zs_def by (rule hd_dropWhile)
  moreover have "hd (trim s) = last zs" using zs t by (simp add: hd_rev)
  moreover have "last zs = last (rev ys)" using zs unfolding zs_def by (rule last_dropWhile_nonempty)
  moreover have "last (rev ys) = hd ys" using ys by (simp add: last_rev)
  moreover have "\<not> isWhitespace (hd ys)" using ys unfolding ys_def by (rule hd_dropWhile)
  ultimately show ?thesis by simp
qed

lemma trim_id:
  assumes "s = [] \<or> (\<not> isWhitespace (hd s) \<and> \<not> isWhitespace (last s))"
  shows "trim s = s"
proof (cases s)
  case Nil
  then show ?thesis by (simp add: trim_def)
next
  case (Cons c cs)
  with assms have h: "\<not> isWhitespace c" and l: "\<not> isWhitespace (last s)" by auto
  have 1: "dropWhile isWhitespace s = s" using h Cons by simp
  have "hd (rev s) = last s" by (rule hd_rev)
  with l have "rev s = [] \<or> \<not> isWhitespace (hd (rev s))" by simp
  then have "dropWhile isWhitespace (rev s) = rev s" by (rule dropWhile_id)
  with 1 show ?thesis by (simp add: trim_def)
qed

lemma trim_strip:
  assumes "\<forall>c\<in>set l. isWhitespace c" "\<forall>c\<in>set r. isWhitespace c"
  shows "trim (l @ s @ r) = trim s"
proof -
  have 1: "dropWhile isWhitespace (l @ s @ r) = dropWhile isWhitespace (s @ r)"
    using assms(1) by (simp add: dropWhile_append2)
  show ?thesis
  proof (cases "\<forall>c\<in>set s. isWhitespace c")
    case True
    then have "dropWhile isWhitespace (s @ r) = []" and "dropWhile isWhitespace s = []"
      using assms(2) by auto
    with 1 have "dropWhile isWhitespace (l @ s @ r) = dropWhile isWhitespace s"
      by (simp only:)
    then show ?thesis by (simp only: trim_def)
  next
    case False
    then obtain x where x: "x \<in> set s" "\<not> isWhitespace x" by blast
    then have 2: "dropWhile isWhitespace (s @ r) = dropWhile isWhitespace s @ r"
      by (rule dropWhile_append1)
    have "dropWhile isWhitespace (rev r @ rev (dropWhile isWhitespace s))
               = dropWhile isWhitespace (rev (dropWhile isWhitespace s))"
      by (rule dropWhile_append2) (use assms(2) in simp)
    with 1 2 show ?thesis by (simp add: trim_def)
  qed
qed

lemma trim_last_kept:
  assumes "u \<noteq> []" "\<not> isWhitespace (last u)"
  shows "trim u = dropWhile isWhitespace u"
    and "dropWhile isWhitespace u \<noteq> []"
    and "last (dropWhile isWhitespace u) = last u"
proof -
  show ne: "dropWhile isWhitespace u \<noteq> []" using assms by (rule dropWhile_last_nonempty)
  show l: "last (dropWhile isWhitespace u) = last u" using ne by (rule last_dropWhile_nonempty)
  have "hd (rev (dropWhile isWhitespace u)) = last (dropWhile isWhitespace u)" by (rule hd_rev)
  with l assms(2)
  have "rev (dropWhile isWhitespace u) = [] \<or> \<not> isWhitespace (hd (rev (dropWhile isWhitespace u)))"
    by simp
  then have "dropWhile isWhitespace (rev (dropWhile isWhitespace u)) = rev (dropWhile isWhitespace u)"
    by (rule dropWhile_id)
  then show "trim u = dropWhile isWhitespace u" by (simp add: trim_def)
qed

lemma trim_hd_kept:
  assumes "v \<noteq> []" "\<not> isWhitespace (hd v)"
  shows "trim v = rev (dropWhile isWhitespace (rev v))"
    and "rev (dropWhile isWhitespace (rev v)) \<noteq> []"
    and "hd (rev (dropWhile isWhitespace (rev v))) = hd v"
proof -
  have "dropWhile isWhitespace v = v" using assms by (simp add: dropWhile_id)
  then show "trim v = rev (dropWhile isWhitespace (rev v))" by (simp add: trim_def)
  have r: "rev v \<noteq> []" using assms(1) by simp
  have lr: "last (rev v) = hd v" by (rule last_rev)
  with assms(2) have nl: "\<not> isWhitespace (last (rev v))" by simp
  have ne: "dropWhile isWhitespace (rev v) \<noteq> []" using r nl by (rule dropWhile_last_nonempty)
  then show "rev (dropWhile isWhitespace (rev v)) \<noteq> []" by simp
  have "last (dropWhile isWhitespace (rev v)) = last (rev v)" using ne by (rule last_dropWhile_nonempty)
  with lr have "last (dropWhile isWhitespace (rev v)) = hd v" by simp
  moreover have "hd (rev (dropWhile isWhitespace (rev v))) = last (dropWhile isWhitespace (rev v))"
    by (rule hd_rev)
  ultimately show "hd (rev (dropWhile isWhitespace (rev v))) = hd v" by simp
qed

lemma trim_around_run:
  assumes u: "u \<noteq> []" "\<not> isWhitespace (last u)"
    and v: "v \<noteq> []" "\<not> isWhitespace (hd v)"
  shows "trim (u @ w @ v) = trim u @ w @ trim v"
proof -
  have 1: "dropWhile isWhitespace (u @ w @ v) = dropWhile isWhitespace u @ w @ v"
    using u by (rule dropWhile_append_last)
  have r: "rev v \<noteq> []" using v(1) by simp
  have "last (rev v) = hd v" by (rule last_rev)
  with v(2) have nl: "\<not> isWhitespace (last (rev v))" by simp
  have 2: "dropWhile isWhitespace (rev v @ rev w @ rev (dropWhile isWhitespace u))
         = dropWhile isWhitespace (rev v) @ rev w @ rev (dropWhile isWhitespace u)"
    using r nl by (rule dropWhile_append_last)
  have "trim (u @ w @ v) = dropWhile isWhitespace u @ w @ rev (dropWhile isWhitespace (rev v))"
    using 1 2 by (simp add: trim_def)
  then show ?thesis
    using trim_last_kept(1) [OF u] trim_hd_kept(1) [OF v] by simp
qed

lemma isWhitespace_space: "isWhitespace 0x20"
  by (simp add: isWhitespace_def)

lemma replaceWhitespaceRuns_Cons_other:
  "\<not> isWhitespace c \<Longrightarrow> replaceWhitespaceRuns (c # s) = c # replaceWhitespaceRuns s"
  by (cases s) auto

lemma replaceWhitespaceRuns_Nil_iff: "replaceWhitespaceRuns s = [] \<longleftrightarrow> s = []"
  by (cases s rule: replaceWhitespaceRuns.cases) auto

lemma replaceWhitespaceRuns_hd:
  "s \<noteq> [] \<Longrightarrow> \<not> isWhitespace (hd s) \<Longrightarrow> hd (replaceWhitespaceRuns s) = hd s"
  by (cases s) (auto simp: replaceWhitespaceRuns_Cons_other)

lemma replaceWhitespaceRuns_last:
  "s \<noteq> [] \<Longrightarrow> \<not> isWhitespace (last s) \<Longrightarrow> last (replaceWhitespaceRuns s) = last s"
proof (induction s rule: replaceWhitespaceRuns.induct)
  case 1
  then show ?case by simp
next
  case (2 c)
  then show ?case by simp
next
  case (3 c d cs)
  show ?case
  proof (cases "isWhitespace c \<and> isWhitespace d")
    case True
    from "3.prems" True have cs: "cs \<noteq> []" by auto
    with "3.prems" have lcs: "\<not> isWhitespace (last cs)" by simp
    have ne: "dropWhile isWhitespace cs \<noteq> []" using cs lcs by (rule dropWhile_last_nonempty)
    have l: "last (dropWhile isWhitespace cs) = last cs" using ne by (rule last_dropWhile_nonempty)
    have rne: "replaceWhitespaceRuns (dropWhile isWhitespace cs) \<noteq> []"
      using ne by (simp only: replaceWhitespaceRuns_Nil_iff not_False_eq_True)
    have "\<not> isWhitespace (last (dropWhile isWhitespace cs))"
      using l lcs by (simp only: not_False_eq_True)
    with "3.IH"(1) True ne
    have ih: "last (replaceWhitespaceRuns (dropWhile isWhitespace cs)) = last (dropWhile isWhitespace cs)"
      by blast
    have "replaceWhitespaceRuns (c # d # cs) = 0x20 # replaceWhitespaceRuns (dropWhile isWhitespace cs)"
      using True by simp
    then have "last (replaceWhitespaceRuns (c # d # cs)) = last (replaceWhitespaceRuns (dropWhile isWhitespace cs))"
      by (simp only: last_ConsR [OF rne])
    also have "\<dots> = last cs" using ih l by (simp only:)
    also have "\<dots> = last (c # d # cs)" using cs by simp
    finally show ?thesis .
  next
    case False
    have ih: "last (replaceWhitespaceRuns (d # cs)) = last (d # cs)"
      using "3.IH"(2) False "3.prems" by simp
    have rne: "replaceWhitespaceRuns (d # cs) \<noteq> []"
      by (simp only: replaceWhitespaceRuns_Nil_iff) simp
    have "replaceWhitespaceRuns (c # d # cs) = c # replaceWhitespaceRuns (d # cs)"
      using False by auto
    then have "last (replaceWhitespaceRuns (c # d # cs)) = last (replaceWhitespaceRuns (d # cs))"
      by (simp only: last_ConsR [OF rne])
    also have "\<dots> = last (c # d # cs)" using ih by simp
    finally show ?thesis .
  qed
qed

lemma noAdjacentWhitespace_Cons:
  "noAdjacentWhitespace (c # s) \<longleftrightarrow>
     (s = [] \<or> \<not> isWhitespace c \<or> \<not> isWhitespace (hd s)) \<and> noAdjacentWhitespace s"
  by (cases s) auto

lemma noAdjacentWhitespace_replace: "noAdjacentWhitespace (replaceWhitespaceRuns s)"
proof (induction s rule: replaceWhitespaceRuns.induct)
  case 1
  then show ?case by simp
next
  case (2 c)
  then show ?case by simp
next
  case (3 c d cs)
  show ?case
  proof (cases "isWhitespace c \<and> isWhitespace d")
    case True
    define r where "r = dropWhile isWhitespace cs"
    have "r = [] \<or> \<not> isWhitespace (hd r)"
      unfolding r_def by (rule dropWhile_hd_or_Nil)
    then have h: "replaceWhitespaceRuns r = [] \<or> \<not> isWhitespace (hd (replaceWhitespaceRuns r))"
      using replaceWhitespaceRuns_hd [of r] by (auto simp: replaceWhitespaceRuns_Nil_iff)
    have n: "noAdjacentWhitespace (replaceWhitespaceRuns r)"
      using "3.IH"(1) True unfolding r_def by blast
    have "replaceWhitespaceRuns (c # d # cs) = 0x20 # replaceWhitespaceRuns r"
      using True by (simp add: r_def)
    then show ?thesis using h n
      by (auto simp: noAdjacentWhitespace_Cons)
  next
    case False
    have "\<not> isWhitespace c \<or> \<not> isWhitespace (hd (replaceWhitespaceRuns (d # cs)))"
      using False replaceWhitespaceRuns_hd [of "d # cs"] by auto
    then show ?thesis using False "3.IH"(2)
      by (auto simp: noAdjacentWhitespace_Cons)
  qed
qed

lemma replaceWhitespaceRuns_id:
  "noAdjacentWhitespace s \<Longrightarrow> replaceWhitespaceRuns s = s"
  by (induction s rule: replaceWhitespaceRuns.induct) auto

lemma noAdjacentWhitespace_nth:
  "noAdjacentWhitespace s \<longleftrightarrow>
     (\<forall>i. Suc i < length s \<longrightarrow> \<not> (isWhitespace (s ! i) \<and> isWhitespace (s ! Suc i)))"
proof (induction s rule: noAdjacentWhitespace.induct)
  case 1
  then show ?case by simp
next
  case (2 c)
  then show ?case by simp
next
  case (3 c d cs)
  show ?case
  proof
    assume a: "noAdjacentWhitespace (c # d # cs)"
    show "\<forall>i. Suc i < length (c # d # cs) \<longrightarrow>
       \<not> (isWhitespace ((c # d # cs) ! i) \<and> isWhitespace ((c # d # cs) ! Suc i))"
    proof (intro allI impI)
      fix i assume "Suc i < length (c # d # cs)"
      then show "\<not> (isWhitespace ((c # d # cs) ! i) \<and> isWhitespace ((c # d # cs) ! Suc i))"
        using a 3 by (cases i) auto
    qed
  next
    assume a: "\<forall>i. Suc i < length (c # d # cs) \<longrightarrow>
       \<not> (isWhitespace ((c # d # cs) ! i) \<and> isWhitespace ((c # d # cs) ! Suc i))"
    from a [rule_format, of 0] have h: "\<not> (isWhitespace c \<and> isWhitespace d)" by simp
    have "\<forall>i. Suc i < length (d # cs) \<longrightarrow>
       \<not> (isWhitespace ((d # cs) ! i) \<and> isWhitespace ((d # cs) ! Suc i))"
    proof (intro allI impI)
      fix i assume "Suc i < length (d # cs)"
      then show "\<not> (isWhitespace ((d # cs) ! i) \<and> isWhitespace ((d # cs) ! Suc i))"
        using a [rule_format, of "Suc i"] by simp
    qed
    with 3 h show "noAdjacentWhitespace (c # d # cs)" by simp
  qed
qed

lemma normalizeWhitespace_ends:
  "normalizeWhitespace s = [] \<or>
   (\<not> isWhitespace (hd (normalizeWhitespace s)) \<and> \<not> isWhitespace (last (normalizeWhitespace s)))"
proof (cases "trim s = []")
  case True
  then show ?thesis by (simp add: normalizeWhitespace_def)
next
  case False
  with trim_ends [of s]
  have h: "\<not> isWhitespace (hd (trim s))" and l: "\<not> isWhitespace (last (trim s))" by auto
  have "hd (replaceWhitespaceRuns (trim s)) = hd (trim s)"
    using False h by (rule replaceWhitespaceRuns_hd)
  moreover have "last (replaceWhitespaceRuns (trim s)) = last (trim s)"
    using False l by (rule replaceWhitespaceRuns_last)
  ultimately show ?thesis using h l by (simp add: normalizeWhitespace_def)
qed

lemma normalizeWhitespace_fixed:
  assumes "noAdjacentWhitespace s"
    and "s = [] \<or> (\<not> isWhitespace (hd s) \<and> \<not> isWhitespace (last s))"
  shows "normalizeWhitespace s = s"
  using assms by (simp add: normalizeWhitespace_def trim_id replaceWhitespaceRuns_id)

text \<open>
  Claim C5.  For every string, the result of the normalisation of line 85 (trim, then one
  space for each run of two or more whitespace characters) has no two whitespace
  characters next to each other, has no whitespace at its start or at its end, and is
  left unchanged by a second normalisation.
\<close>

theorem normalizeWhitespace_canonical_idempotent:
  "(\<forall>i. Suc i < length (normalizeWhitespace s) \<longrightarrow>
      \<not> (isWhitespace (normalizeWhitespace s ! i) \<and> isWhitespace (normalizeWhitespace s ! Suc i))) \<and>
   (normalizeWhitespace s \<noteq> [] \<longrightarrow>
      \<not> isWhitespace (hd (normalizeWhitespace s)) \<and> \<not> isWhitespace (last (normalizeWhitespace s))) \<and>
   normalizeWhitespace (normalizeWhitespace s) = normalizeWhitespace s"
proof -
  have a: "noAdjacentWhitespace (normalizeWhitespace s)"
    by (simp add: normalizeWhitespace_def noAdjacentWhitespace_replace)
  have b: "normalizeWhitespace s = [] \<or>
     (\<not> isWhitespace (hd (normalizeWhitespace s)) \<and> \<not> isWhitespace (last (normalizeWhitespace s)))"
    by (rule normalizeWhitespace_ends)
  have c: "normalizeWhitespace (normalizeWhitespace s) = normalizeWhitespace s"
    using a b by (rule normalizeWhitespace_fixed)
  from a have "\<forall>i. Suc i < length (normalizeWhitespace s) \<longrightarrow>
      \<not> (isWhitespace (normalizeWhitespace s ! i) \<and> isWhitespace (normalizeWhitespace s ! Suc i))"
    by (simp only: noAdjacentWhitespace_nth)
  with b c show ?thesis by blast
qed

theorem normalizeWhitespace_canonical_idempotent_witness:
  "normalizeWhitespace (js '' 12  Smith   St '') = js ''12 Smith St'' \<and>
   Suc 2 < length (normalizeWhitespace (js '' 12  Smith   St '')) \<and>
   \<not> (isWhitespace (normalizeWhitespace (js '' 12  Smith   St '') ! 2) \<and>
      isWhitespace (normalizeWhitespace (js '' 12  Smith   St '') ! Suc 2)) \<and>
   \<not> isWhitespace (hd (normalizeWhitespace (js '' 12  Smith   St ''))) \<and>
   \<not> isWhitespace (last (normalizeWhitespace (js '' 12  Smith   St ''))) \<and>
   normalizeWhitespace (normalizeWhitespace (js '' 12  Smith   St ''))
     = normalizeWhitespace (js '' 12  Smith   St '')"
proof -
  have e: "normalizeWhitespace (js '' 12  Smith   St '') = js ''12 Smith St''"
    by (simp add: normalizeWhitespace_def trim_def isWhitespace_def js_def)
  have n: "js ''12 Smith St'' \<noteq> []" "Suc 2 < length (js ''12 Smith St'')"
    by (simp_all add: js_def)
  show ?thesis
    using normalizeWhitespace_canonical_idempotent [of "js '' 12  Smith   St ''"] n
    unfolding e by blast
qed

lemma replaceWhitespaceRuns_append:
  "u = [] \<or> \<not> isWhitespace (last u) \<Longrightarrow>
   replaceWhitespaceRuns (u @ x) = replaceWhitespaceRuns u @ replaceWhitespaceRuns x"
proof (induction u rule: replaceWhitespaceRuns.induct)
  case 1
  then show ?case by simp
next
  case (2 c)
  then show ?case by (simp add: replaceWhitespaceRuns_Cons_other)
next
  case (3 c d cs)
  show ?case
  proof (cases "isWhitespace c \<and> isWhitespace d")
    case True
    from "3.prems" True have cs: "cs \<noteq> []" by auto
    with "3.prems" have lcs: "\<not> isWhitespace (last cs)" by simp
    define r where "r = dropWhile isWhitespace cs"
    have ne: "r \<noteq> []" unfolding r_def using cs lcs by (rule dropWhile_last_nonempty)
    have "last r = last cs" using ne unfolding r_def by (rule last_dropWhile_nonempty)
    with lcs have "r = [] \<or> \<not> isWhitespace (last r)" by simp
    with "3.IH"(1) True
    have ih: "replaceWhitespaceRuns (r @ x) = replaceWhitespaceRuns r @ replaceWhitespaceRuns x"
      unfolding r_def by blast
    have d: "dropWhile isWhitespace (cs @ x) = r @ x"
      unfolding r_def using cs lcs by (rule dropWhile_append_last)
    have "replaceWhitespaceRuns ((c # d # cs) @ x) = 0x20 # replaceWhitespaceRuns (r @ x)"
      using True d by simp
    also have "\<dots> = (0x20 # replaceWhitespaceRuns r) @ replaceWhitespaceRuns x"
      using ih by simp
    also have "0x20 # replaceWhitespaceRuns r = replaceWhitespaceRuns (c # d # cs)"
      using True by (simp add: r_def)
    finally show ?thesis .
  next
    case False
    have "d # cs = [] \<or> \<not> isWhitespace (last (d # cs))" using "3.prems" by simp
    with "3.IH"(2) False
    have ih: "replaceWhitespaceRuns ((d # cs) @ x) = replaceWhitespaceRuns (d # cs) @ replaceWhitespaceRuns x"
      by blast
    have "replaceWhitespaceRuns ((c # d # cs) @ x) = c # replaceWhitespaceRuns ((d # cs) @ x)"
      using False by auto
    also have "\<dots> = (c # replaceWhitespaceRuns (d # cs)) @ replaceWhitespaceRuns x"
      using ih by simp
    also have "c # replaceWhitespaceRuns (d # cs) = replaceWhitespaceRuns (c # d # cs)"
      using False by auto
    finally show ?thesis .
  qed
qed

lemma replaceWhitespaceRuns_run:
  assumes w: "w \<noteq> []" "\<forall>c\<in>set w. isWhitespace c"
    and v: "v = [] \<or> \<not> isWhitespace (hd v)"
  shows "replaceWhitespaceRuns (w @ v) = (if 2 \<le> length w then [0x20] else w) @ replaceWhitespaceRuns v"
proof (cases w)
  case Nil
  with w show ?thesis by simp
next
  case (Cons c w')
  show ?thesis
  proof (cases w')
    case Nil
    show ?thesis
    proof (cases v)
      case Nil
      with \<open>w = c # w'\<close> \<open>w' = []\<close> show ?thesis by simp
    next
      case (Cons e v')
      with v have "\<not> isWhitespace e" by simp
      with Cons \<open>w = c # w'\<close> \<open>w' = []\<close> show ?thesis by simp
    qed
  next
    case (Cons d w'')
    have cd: "isWhitespace c \<and> isWhitespace d" using w \<open>w = c # w'\<close> Cons by simp
    have "\<forall>x\<in>set w''. isWhitespace x" using w \<open>w = c # w'\<close> Cons by simp
    then have "dropWhile isWhitespace (w'' @ v) = dropWhile isWhitespace v"
      by (simp add: dropWhile_append2)
    also have "\<dots> = v" using v by (rule dropWhile_id)
    finally have "replaceWhitespaceRuns (c # d # w'' @ v) = 0x20 # replaceWhitespaceRuns v"
      using cd by simp
    then show ?thesis using \<open>w = c # w'\<close> Cons by simp
  qed
qed

lemma normalizeWhitespace_no_whitespace:
  assumes "\<forall>c\<in>set s. \<not> isWhitespace c"
  shows "normalizeWhitespace s = s"
proof -
  have "replaceWhitespaceRuns s = s" using assms
    by (induction s) (simp_all add: replaceWhitespaceRuns_Cons_other)
  moreover have "trim s = s"
  proof (rule trim_id)
    show "s = [] \<or> \<not> isWhitespace (hd s) \<and> \<not> isWhitespace (last s)"
      using assms by (cases s) auto
  qed
  ultimately show ?thesis by (simp add: normalizeWhitespace_def)
qed

lemma normalizeWhitespace_around_run:
  assumes u: "u \<noteq> []" "\<not> isWhitespace (last u)"
    and w: "w \<noteq> []" "\<forall>c\<in>set w. isWhitespace c"
    and v: "v \<noteq> []" "\<not> isWhitespace (hd v)"
  shows "normalizeWhitespace (u @ w @ v) =
           normalizeWhitespace u @ (if 2 \<le> length w then [0x20] else w) @ normalizeWhitespace v"
proof -
  have tu: "trim u = [] \<or> \<not> isWhitespace (last (trim u))"
    using trim_last_kept [OF u] u(2) by simp
  have tv: "trim v = [] \<or> \<not> isWhitespace (hd (trim v))"
    using trim_hd_kept [OF v] v(2) by simp
  have "replaceWhitespaceRuns (trim u @ w @ trim v)
        = replaceWhitespaceRuns (trim u) @ replaceWhitespaceRuns (w @ trim v)"
    using tu by (rule replaceWhitespaceRuns_append)
  also have "replaceWhitespaceRuns (w @ trim v)
        = (if 2 \<le> length w then [0x20] else w) @ replaceWhitespaceRuns (trim v)"
    using w tv by (rule replaceWhitespaceRuns_run)
  finally show ?thesis
    using trim_around_run [OF u v, of w] by (simp add: normalizeWhitespace_def)
qed

text \<open>
  Claim C4, as the script has it.  A run of one whitespace character inside the text is
  kept as it is: \<open>a<TAB>b\<close> and \<open>a<LF>b\<close> are not changed into \<open>a b\<close>.
\<close>

theorem normalizeWhitespace_single_whitespace_counterexample:
  "normalizeWhitespace [0x61, 0x09, 0x62] = [0x61, 0x09, 0x62] \<and>
   normalizeWhitespace [0x61, 0x09, 0x62] \<noteq> [0x61, 0x20, 0x62] \<and>
   normalizeWhitespace [0x61, 0x0A, 0x62] = [0x61, 0x0A, 0x62] \<and>
   normalizeWhitespace [0x61, 0x0A, 0x62] \<noteq> [0x61, 0x20, 0x62]"
  by (simp add: normalizeWhitespace_def trim_def isWhitespace_def)

text \<open>
  Claim C4, amended.  The normalisation of a heading's text removes the whitespace at
  both ends, leaves a text without whitespace unchanged, and treats every run of
  whitespace between two other characters by its length: a run of two or more
  characters becomes one space, a run of one character (a tab or a newline as well as a
  space) stays as it is.
\<close>

theorem normalizeWhitespace_runs:
  "((\<forall>c\<in>set l. isWhitespace c) \<and> (\<forall>c\<in>set r. isWhitespace c) \<longrightarrow>
      normalizeWhitespace (l @ s @ r) = normalizeWhitespace s) \<and>
   ((\<forall>c\<in>set t. \<not> isWhitespace c) \<longrightarrow> normalizeWhitespace t = t) \<and>
   (u \<noteq> [] \<and> \<not> isWhitespace (last u) \<and>
    w \<noteq> [] \<and> (\<forall>c\<in>set w. isWhitespace c) \<and>
    v \<noteq> [] \<and> \<not> isWhitespace (hd v) \<longrightarrow>
      normalizeWhitespace (u @ w @ v) =
        normalizeWhitespace u @ (if 2 \<le> length w then [0x20] else w) @ normalizeWhitespace v)"
proof (intro conjI impI)
  assume "(\<forall>c\<in>set l. isWhitespace c) \<and> (\<forall>c\<in>set r. isWhitespace c)"
  then show "normalizeWhitespace (l @ s @ r) = normalizeWhitespace s"
    by (simp add: normalizeWhitespace_def trim_strip)
next
  assume "\<forall>c\<in>set t. \<not> isWhitespace c"
  then show "normalizeWhitespace t = t" by (rule normalizeWhitespace_no_whitespace)
next
  assume "u \<noteq> [] \<and> \<not> isWhitespace (last u) \<and>
    w \<noteq> [] \<and> (\<forall>c\<in>set w. isWhitespace c) \<and>
    v \<noteq> [] \<and> \<not> isWhitespace (hd v)"
  then show "normalizeWhitespace (u @ w @ v) =
        normalizeWhitespace u @ (if 2 \<le> length w then [0x20] else w) @ normalizeWhitespace v"
    by (simp add: normalizeWhitespace_around_run)
qed

theorem normalizeWhitespace_runs_witness:
  "normalizeWhitespace (js '' '' @ js ''12'' @ js ''  '') = normalizeWhitespace (js ''12'') \<and>
   normalizeWhitespace (js ''12'') = js ''12'' \<and>
   normalizeWhitespace (js ''12'' @ [0x09] @ js ''Smith'') = js ''12'' @ [0x09] @ js ''Smith'' \<and>
   normalizeWhitespace (js ''12'' @ [0x09, 0x0A] @ js ''Smith'') = js ''12 Smith''"
proof -
  have ws: "\<forall>c\<in>set (js '' ''). isWhitespace c" "\<forall>c\<in>set (js ''  ''). isWhitespace c"
    "\<forall>c\<in>set [0x09]. isWhitespace c" "\<forall>c\<in>set [0x09, 0x0A]. isWhitespace c"
    by (simp_all add: js_def isWhitespace_def)
  have nws: "\<forall>c\<in>set (js ''12''). \<not> isWhitespace c" "\<forall>c\<in>set (js ''Smith''). \<not> isWhitespace c"
    "js ''12'' \<noteq> []" "\<not> isWhitespace (last (js ''12''))"
    "js ''Smith'' \<noteq> []" "\<not> isWhitespace (hd (js ''Smith''))"
    by (simp_all add: js_def isWhitespace_def)
  have a: "normalizeWhitespace (js '' '' @ js ''12'' @ js ''  '') = normalizeWhitespace (js ''12'')"
    and b: "normalizeWhitespace (js ''12'') = js ''12''"
    using normalizeWhitespace_runs
      [of "js '' ''" "js ''  ''" "js ''12''" "js ''12''" "js ''12''" "[0x09]" "js ''Smith''"] ws nws
    by blast+
  have s: "normalizeWhitespace (js ''Smith'') = js ''Smith''"
    using normalizeWhitespace_runs
      [of "[]" "[]" "[]" "js ''Smith''" "js ''12''" "[0x09]" "js ''Smith''"] nws
    by blast
  have c: "normalizeWhitespace (js ''12'' @ [0x09] @ js ''Smith'') = js ''12'' @ [0x09] @ js ''Smith''"
    using normalizeWhitespace_runs
      [of "[]" "[]" "[]" "[]" "js ''12''" "[0x09]" "js ''Smith''"] ws nws b s
    by simp
  have d: "normalizeWhitespace (js ''12'' @ [0x09, 0x0A] @ js ''Smith'') = js ''12 Smith''"
    using normalizeWhitespace_runs
      [of "[]" "[]" "[]" "[]" "js ''12''" "[0x09, 0x0A]" "js ''Smith''"] ws nws b s
    by (simp add: js_def)
  from a b c d show ?thesis by blast
qed

section \<open>Rows and labels\<close>

lemma labels_distinct:
  "js ''Type of Work'' \<noteq> js ''Application No.''"
  "js ''Type of Work'' \<noteq> js ''Date Lodged''"
  "js ''Application No.'' \<noteq> js ''Date Lodged''"
  by (simp_all add: js_def)

lemma rowKey_dataRow: "rowKey (dataRow k v) = trim (js k)"
  by (simp add: rowKey_def dataRow_def text_sel_def js_def)

lemma rowValue_dataRow: "rowValue (dataRow k v) = trim (js v)"
  by (simp add: rowValue_def dataRow_def text_sel_def js_def)

lemma find_sel_detailsBlock_two:
  "find_sel (js ''p'') (js ''rowDataOnly'') (detailsBlock [dataRow k1 v1, dataRow k2 v2])
     = [dataRow k1 v1, dataRow k2 v2]"
proof -
  have "matchesSelector (js ''p'') (js ''rowDataOnly'') (dataRow k v)" for k v
    by (simp add: dataRow_def)
  moreover have "findAll (js ''p'') (js ''rowDataOnly'') (childNodes (dataRow k v)) = []" for k v
    by (simp add: dataRow_def js_def)
  ultimately show ?thesis
    by (simp add: detailsBlock_def dataRow_def js_def)
qed

text \<open>
  Claim C7.  For every paragraph that is scanned, with its key and value as lines 92 and
  93 read them: the value becomes the reason exactly when the key is \<open>Type of Work\<close>,
  the application number exactly when the key is \<open>Application No.\<close>, and its strict
  parse becomes the received date exactly when the key is \<open>Date Lodged\<close>; the
  comparison is of the whole string, letter case included, and with any other key the
  variables are as before.
\<close>

theorem scanParagraph_exact_labels:
  "reason_v (scanParagraph v p) =
     (if rowKey p = js ''Type of Work'' then rowValue p else reason_v v) \<and>
   applicationNumber_v (scanParagraph v p) =
     (if rowKey p = js ''Application No.'' then rowValue p else applicationNumber_v v) \<and>
   receivedDate_v (scanParagraph v p) =
     (if rowKey p = js ''Date Lodged'' then parseDateStrict (rowValue p) else receivedDate_v v) \<and>
   address_v (scanParagraph v p) = address_v v \<and>
   (rowKey p \<noteq> js ''Type of Work'' \<and> rowKey p \<noteq> js ''Application No.'' \<and>
    rowKey p \<noteq> js ''Date Lodged'' \<longrightarrow> scanParagraph v p = v)"
  using labels_distinct by (simp add: scanParagraph_def assignField_def)

theorem scanParagraph_exact_labels_witness:
  "scanParagraph
      \<lparr>address_v = [], applicationNumber_v = [], reason_v = [], receivedDate_v = Invalid\<rparr>
      (dataRow ''type of work'' ''Carport'')
    = \<lparr>address_v = [], applicationNumber_v = [], reason_v = [], receivedDate_v = Invalid\<rparr> \<and>
   scanParagraph
      \<lparr>address_v = [], applicationNumber_v = [], reason_v = [], receivedDate_v = Invalid\<rparr>
      (dataRow ''Date Lodged:'' ''5/08/2023'')
    = \<lparr>address_v = [], applicationNumber_v = [], reason_v = [], receivedDate_v = Invalid\<rparr> \<and>
   reason_v (scanParagraph
      \<lparr>address_v = [], applicationNumber_v = [], reason_v = [], receivedDate_v = Invalid\<rparr>
      (dataRow ''Type of Work'' ''Carport''))
    = js ''Carport''"
proof -
  let ?v = "\<lparr>address_v = [], applicationNumber_v = [], reason_v = [], receivedDate_v = Invalid\<rparr>"
  have a: "rowKey (dataRow ''type of work'' ''Carport'') \<noteq> js ''Type of Work'' \<and>
           rowKey (dataRow ''type of work'' ''Carport'') \<noteq> js ''Application No.'' \<and>
           rowKey (dataRow ''type of work'' ''Carport'') \<noteq> js ''Date Lodged''"
    by (simp add: rowKey_dataRow) (simp add: trim_def isWhitespace_def js_def)
  have b: "rowKey (dataRow ''Date Lodged:'' ''5/08/2023'') \<noteq> js ''Type of Work'' \<and>
           rowKey (dataRow ''Date Lodged:'' ''5/08/2023'') \<noteq> js ''Application No.'' \<and>
           rowKey (dataRow ''Date Lodged:'' ''5/08/2023'') \<noteq> js ''Date Lodged''"
    by (simp add: rowKey_dataRow) (simp add: trim_def isWhitespace_def js_def)
  have c: "rowKey (dataRow ''Type of Work'' ''Carport'') = js ''Type of Work''"
    "rowValue (dataRow ''Type of Work'' ''Carport'') = js ''Carport''"
    by (simp_all add: rowKey_dataRow rowValue_dataRow) (simp_all add: trim_def isWhitespace_def js_def)
  show ?thesis
    using scanParagraph_exact_labels [of ?v "dataRow ''type of work'' ''Carport''"] a
          scanParagraph_exact_labels [of ?v "dataRow ''Date Lodged:'' ''5/08/2023''"] b
          scanParagraph_exact_labels [of ?v "dataRow ''Type of Work'' ''Carport''"] c
    by simp
qed

lemma foldl_scanParagraph_other:
  "\<forall>q\<in>set post. rowKey q \<noteq> js ''Type of Work'' \<Longrightarrow>
   reason_v (foldl scanParagraph v post) = reason_v v"
  "\<forall>q\<in>set post. rowKey q \<noteq> js ''Application No.'' \<Longrightarrow>
   applicationNumber_v (foldl scanParagraph v post) = applicationNumber_v v"
  "\<forall>q\<in>set post. rowKey q \<noteq> js ''Date Lodged'' \<Longrightarrow>
   receivedDate_v (foldl scanParagraph v post) = receivedDate_v v"
  using labels_distinct
  by (induction post arbitrary: v; simp add: scanParagraph_def assignField_def)+

lemma foldl_scanParagraph_last:
  "rowKey p = js ''Type of Work'' \<Longrightarrow> \<forall>q\<in>set post. rowKey q \<noteq> js ''Type of Work'' \<Longrightarrow>
   reason_v (foldl scanParagraph v (pre @ p # post)) = rowValue p"
  "rowKey p = js ''Application No.'' \<Longrightarrow> \<forall>q\<in>set post. rowKey q \<noteq> js ''Application No.'' \<Longrightarrow>
   applicationNumber_v (foldl scanParagraph v (pre @ p # post)) = rowValue p"
  "rowKey p = js ''Date Lodged'' \<Longrightarrow> \<forall>q\<in>set post. rowKey q \<noteq> js ''Date Lodged'' \<Longrightarrow>
   receivedDate_v (foldl scanParagraph v (pre @ p # post)) = parseDateStrict (rowValue p)"
  using labels_distinct
  by (simp_all add: foldl_scanParagraph_other scanParagraph_def assignField_def)

text \<open>
  Claim C10.  Within one heading, when the rows of the scanned block are listed in
  document order and a row with one of the three labels is the last row with that label,
  the variable of that label ends with the value of this row (for \<open>Date Lodged\<close>, with
  its parse), whatever the rows with the same label before it held.
\<close>

theorem last_duplicate_row_wins:
  assumes "nextDiv (snd h) = [d]"
    and "find_sel (js ''p'') (js ''rowDataOnly'') d = pre @ p # post"
  shows
   "(rowKey p = js ''Type of Work'' \<and> (\<forall>q\<in>set post. rowKey q \<noteq> js ''Type of Work'')
       \<longrightarrow> reason_v (scanHeader h) = rowValue p) \<and>
    (rowKey p = js ''Application No.'' \<and> (\<forall>q\<in>set post. rowKey q \<noteq> js ''Application No.'')
       \<longrightarrow> applicationNumber_v (scanHeader h) = rowValue p) \<and>
    (rowKey p = js ''Date Lodged'' \<and> (\<forall>q\<in>set post. rowKey q \<noteq> js ''Date Lodged'')
       \<longrightarrow> receivedDate_v (scanHeader h) = parseDateStrict (rowValue p))"
proof -
  define v0 where "v0 = \<lparr>address_v = normalizeWhitespace (text_sel [fst h]),
      applicationNumber_v = [], reason_v = [], receivedDate_v = Invalid\<rparr>"
  have e: "scanHeader h = foldl scanParagraph v0 (pre @ p # post)"
    using assms by (simp add: scanHeader_def scanDiv_def v0_def)
  show ?thesis
    unfolding e using foldl_scanParagraph_last [of p post v0 pre] by blast
qed

theorem last_duplicate_row_wins_witness:
  "reason_v (scanHeader (heading ''12 Smith St'',
      [detailsBlock [dataRow ''Type of Work'' ''Shed'', dataRow ''Type of Work'' ''Carport'']]))
   = js ''Carport''"
proof -
  let ?d = "detailsBlock [dataRow ''Type of Work'' ''Shed'', dataRow ''Type of Work'' ''Carport'']"
  let ?h = "(heading ''12 Smith St'', [?d])"
  have 1: "nextDiv (snd ?h) = [?d]" by (simp add: detailsBlock_def)
  have 2: "find_sel (js ''p'') (js ''rowDataOnly'') ?d
     = [dataRow ''Type of Work'' ''Shed''] @ dataRow ''Type of Work'' ''Carport'' # []"
    by (simp add: find_sel_detailsBlock_two)
  have 3: "rowKey (dataRow ''Type of Work'' ''Carport'') = js ''Type of Work''"
    "rowValue (dataRow ''Type of Work'' ''Carport'') = js ''Carport''"
    by (simp_all add: rowKey_dataRow rowValue_dataRow) (simp_all add: trim_def isWhitespace_def js_def)
  show ?thesis
    using last_duplicate_row_wins [OF 1 2] 3 by simp
qed

section \<open>The block that is scanned\<close>

lemmas page_defs = heading_def detailsBlock_def dataRow_def

lemmas scan_defs = scanHeader_def scanDiv_def scanParagraph_def rowKey_def rowValue_def
  text_sel_def assignField_def normalizeWhitespace_def trim_def isWhitespace_def js_def

lemmas date_defs = parseDateStrict_def matchDigits_def isDigit_def toInt_def daysInMonth_def
  isLeapYear_def

lemma nextDiv_skip:
  "\<forall>n\<in>set pre. \<not> isTag n \<Longrightarrow> nextDiv (pre @ e # post) = nextDiv (e # post)"
  by (induction pre rule: nextDiv.induct) auto

lemma scanHeader_twoBlocksPage:
  "map scanHeader (selectAll (js ''h4'') (js ''non_table_headers'') twoBlocksPage) =
     [\<lparr>address_v = js ''12 Smith St'', applicationNumber_v = [],
       reason_v = js ''Carport'', receivedDate_v = Invalid\<rparr>]"
  by (simp add: twoBlocksPage_def page_defs scan_defs date_defs)

lemma findAll_child:
  "n \<in> set ch \<Longrightarrow> matchesSelector t c n \<Longrightarrow> n \<in> set (findAll t c ch)"
  by (induction t c ch rule: findAll.induct) auto

lemma findAll_nested:
  "Element tn cl' ch' \<in> set ch \<Longrightarrow> set (findAll t c ch') \<subseteq> set (findAll t c ch)"
  by (induction t c ch rule: findAll.induct) auto

lemma scanHeader_single:
  "scanHeader (h, [Element t cl ch]) =
     foldl scanParagraph
       \<lparr>address_v = normalizeWhitespace (text_sel [h]), applicationNumber_v = [],
        reason_v = [], receivedDate_v = Invalid\<rparr>
       (if t = js ''div'' then findAll (js ''p'') (js ''rowDataOnly'') ch else [])"
  by (simp add: scanHeader_def scanDiv_def)

text \<open>
  Claim C3, amended.  For every heading the script scans at most one block: the sibling
  element directly after the heading (text and comments between them are passed over),
  and only when that element is a \<open>div\<close>.  All rows of this one block are read: the
  variables of the heading are the result of reading, in document order, every
  \<open>p.rowDataOnly\<close> element below that \<open>div\<close> (its matching children, and the
  matching elements below any of its child elements), starting from the empty variables
  with the heading's address.  The nodes that follow the block, further \<open>div\<close>
  elements among them, change nothing.
\<close>

theorem only_next_sibling_div_scanned:
  "length (nextDiv sibs) \<le> 1 \<and>
   ((\<forall>n\<in>set pre. \<not> isTag n) \<longrightarrow>
      nextDiv (pre @ Element t cl ch # post) = (if t = js ''div'' then [Element t cl ch] else []) \<and>
      scanHeader (h, pre @ Element t cl ch # post) = scanHeader (h, [Element t cl ch]) \<and>
      scanHeader (h, pre @ Element t cl ch # post) =
        foldl scanParagraph
          \<lparr>address_v = normalizeWhitespace (text_sel [h]), applicationNumber_v = [],
           reason_v = [], receivedDate_v = Invalid\<rparr>
          (if t = js ''div'' then findAll (js ''p'') (js ''rowDataOnly'') ch else [])) \<and>
   (n \<in> set ch \<and> matchesSelector (js ''p'') (js ''rowDataOnly'') n \<longrightarrow>
      n \<in> set (findAll (js ''p'') (js ''rowDataOnly'') ch)) \<and>
   (Element tn cl' ch' \<in> set ch \<longrightarrow>
      set (findAll (js ''p'') (js ''rowDataOnly'') ch')
        \<subseteq> set (findAll (js ''p'') (js ''rowDataOnly'') ch))"
proof -
  have a: "length (nextDiv sibs) \<le> 1"
    by (induction sibs rule: nextDiv.induct) auto
  have b: "scanHeader (h, pre @ Element t cl ch # post) = scanHeader (h, [Element t cl ch])"
    if "\<forall>n\<in>set pre. \<not> isTag n"
    using that by (simp add: nextDiv_skip scanHeader_def)
  have c: "nextDiv (pre @ Element t cl ch # post) = (if t = js ''div'' then [Element t cl ch] else [])"
    if "\<forall>n\<in>set pre. \<not> isTag n"
    using that by (simp add: nextDiv_skip)
  have d: "n \<in> set (findAll (js ''p'') (js ''rowDataOnly'') ch)"
    if "n \<in> set ch \<and> matchesSelector (js ''p'') (js ''rowDataOnly'') n"
    using that by (simp add: findAll_child)
  have e: "set (findAll (js ''p'') (js ''rowDataOnly'') ch')
      \<subseteq> set (findAll (js ''p'') (js ''rowDataOnly'') ch)" if "Element tn cl' ch' \<in> set ch"
    using that by (rule findAll_nested)
  from a b c d e scanHeader_single [of h t cl ch] show ?thesis
    by (intro conjI impI) simp_all
qed

theorem only_next_sibling_div_scanned_witness:
  "scanHeader (heading ''12 Smith St'',
      [Text (js '' ''), detailsBlock [dataRow ''Type of Work'' ''Carport''],
       detailsBlock [dataRow ''Application No.'' ''123/2023'']])
   = \<lparr>address_v = js ''12 Smith St'', applicationNumber_v = [],
      reason_v = js ''Carport'', receivedDate_v = Invalid\<rparr> \<and>
   dataRow ''Type of Work'' ''Carport''
     \<in> set (findAll (js ''p'') (js ''rowDataOnly'') [dataRow ''Type of Work'' ''Carport''])"
proof -
  have pre: "\<forall>n\<in>set [Text (js '' '')]. \<not> isTag n" by simp
  have m: "dataRow ''Type of Work'' ''Carport'' \<in> set [dataRow ''Type of Work'' ''Carport''] \<and>
           matchesSelector (js ''p'') (js ''rowDataOnly'') (dataRow ''Type of Work'' ''Carport'')"
    by (simp add: dataRow_def)
  have f: "findAll (js ''p'') (js ''rowDataOnly'') [dataRow ''Type of Work'' ''Carport'']
           = [dataRow ''Type of Work'' ''Carport'']"
    by (simp add: dataRow_def js_def)
  have k: "rowKey (dataRow ''Type of Work'' ''Carport'') = js ''Type of Work''"
    "rowValue (dataRow ''Type of Work'' ''Carport'') = js ''Carport''"
    by (simp_all add: rowKey_dataRow rowValue_dataRow) (simp_all add: trim_def isWhitespace_def js_def)
  have a: "normalizeWhitespace (text_sel [heading ''12 Smith St'']) = js ''12 Smith St''"
    by (simp add: heading_def text_sel_def normalizeWhitespace_def trim_def isWhitespace_def js_def)
  note T = only_next_sibling_div_scanned
      [of "[]" "[Text (js '' '')]" "js ''div''" "[]" "[dataRow ''Type of Work'' ''Carport'']"
          "[detailsBlock [dataRow ''Application No.'' ''123/2023'']]" "heading ''12 Smith St''"
          "dataRow ''Type of Work'' ''Carport''" "js ''p''" "[]" "[]"]
  have "scanHeader (heading ''12 Smith St'',
      [Text (js '' ''), detailsBlock [dataRow ''Type of Work'' ''Carport''],
       detailsBlock [dataRow ''Application No.'' ''123/2023'']])
    = scanHeader (heading ''12 Smith St'',
        [Text (js '' '')] @ Element (js ''div'') [] [dataRow ''Type of Work'' ''Carport'']
          # [detailsBlock [dataRow ''Application No.'' ''123/2023'']])"
    by (simp add: detailsBlock_def)
  also have "\<dots> = foldl scanParagraph
          \<lparr>address_v = normalizeWhitespace (text_sel [heading ''12 Smith St'']),
           applicationNumber_v = [], reason_v = [], receivedDate_v = Invalid\<rparr>
          (if js ''div'' = js ''div''
           then findAll (js ''p'') (js ''rowDataOnly'') [dataRow ''Type of Work'' ''Carport'']
           else [])"
    using T pre by blast
  also have "\<dots> = \<lparr>address_v = js ''12 Smith St'', applicationNumber_v = [],
      reason_v = js ''Carport'', receivedDate_v = Invalid\<rparr>"
    by (simp add: f a scanParagraph_def assignField_def k)
  finally have 1: "scanHeader (heading ''12 Smith St'',
      [Text (js '' ''), detailsBlock [dataRow ''Type of Work'' ''Carport''],
       detailsBlock [dataRow ''Application No.'' ''123/2023'']])
    = \<lparr>address_v = js ''12 Smith St'', applicationNumber_v = [],
      reason_v = js ''Carport'', receivedDate_v = Invalid\<rparr>" .
  have 2: "dataRow ''Type of Work'' ''Carport''
     \<in> set (findAll (js ''p'') (js ''rowDataOnly'') [dataRow ''Type of Work'' ''Carport''])"
    using T m by blast
  from 1 2 show ?thesis by (rule conjI)
qed

section \<open>The run\<close>

lemma httpRequests_processHeaders: "httpRequests (fst (processHeaders env hs db)) = []"
  by (induction hs arbitrary: db) (auto simp: Let_def split_beta split: sum.splits)

lemma insertedRows_processHeaders_prefix:
  "prefix (insertedRows (fst (processHeaders env hs db)))
      (map (makeRow env) (filter hasNumberAndAddress (map scanHeader hs)))"
  by (induction hs arbitrary: db) (auto simp: Let_def split_beta split: sum.splits)

lemma insertedRows_processHeaders_all:
  "\<forall>r. \<not> sqliteFails env r \<Longrightarrow>
   insertedRows (fst (processHeaders env hs db))
     = map (makeRow env) (filter hasNumberAndAddress (map scanHeader hs))"
  by (induction hs arbitrary: db) (auto simp: Let_def split_beta insertRow_def split: sum.splits)

lemma main_cases:
  "fst (main env) =
     (case request env DevelopmentApplicationMainUrl (newJar env) of
        Inl e \<Rightarrow> [HttpGet DevelopmentApplicationMainUrl (newJar env)]
      | Inr (mainBody, jar1) \<Rightarrow>
          (case request env (developmentApplicationSearchUrl (now env)) jar1 of
             Inl e \<Rightarrow> [HttpGet DevelopmentApplicationMainUrl (newJar env),
                       HttpGet (developmentApplicationSearchUrl (now env)) jar1]
           | Inr (body, jar2) \<Rightarrow>
               HttpGet DevelopmentApplicationMainUrl (newJar env)
               # HttpGet (developmentApplicationSearchUrl (now env)) jar1
               # fst (processHeaders env
                        (selectAll (js ''h4'') (js ''non_table_headers'') (cheerioLoad env body))
                        (storedData env))))"
  by (simp add: main_def Let_def split: sum.splits prod.splits)

lemma makeRow_fields:
  "applicationNumber (makeRow env v) = applicationNumber_v v"
  "address (makeRow env v) = address_v v"
  "reason (makeRow env v) = reason_v v"
  "receivedDate (makeRow env v) = format_YYYY_MM_DD (receivedDate_v v)"
  by (simp_all add: makeRow_def isValid_property_def)

lemma fixedEnvironment_fields:
  "now (fixedEnvironment page) = Valid 2023 8 5"
  "sqliteFails (fixedEnvironment page) r = False"
  "cheerioLoad (fixedEnvironment page) b = page"
  "request (fixedEnvironment page) u j = Inr ([], j @ [u])"
  "newJar (fixedEnvironment page) = []"
  by (simp_all add: fixedEnvironment_def)

lemma insertedRows_fixedEnvironment:
  "insertedRows (fst (main (fixedEnvironment page))) =
     map (makeRow (fixedEnvironment page))
       (filter hasNumberAndAddress
         (map scanHeader (selectAll (js ''h4'') (js ''non_table_headers'') page)))"
  by (simp add: main_cases insertedRows_processHeaders_all fixedEnvironment_fields)

text \<open>
  Claim C3, as the script has it.  On a page where the heading is followed by two
  \<open>div\<close> blocks and the row \<open>Application No.\<close> is in the second one, the row is
  found on the page but not read for the heading: the application number stays empty and
  nothing is written.
\<close>

theorem second_details_block_counterexample:
  "findAll (js ''p'') (js ''rowDataOnly'') twoBlocksPage
     = [dataRow ''Type of Work'' ''Carport'', dataRow ''Application No.'' ''123/2023''] \<and>
   map applicationNumber_v
     (map scanHeader (selectAll (js ''h4'') (js ''non_table_headers'') twoBlocksPage)) = [ [] ] \<and>
   insertedRows (fst (main (fixedEnvironment twoBlocksPage))) = []"
proof -
  have "findAll (js ''p'') (js ''rowDataOnly'') twoBlocksPage
     = [dataRow ''Type of Work'' ''Carport'', dataRow ''Application No.'' ''123/2023'']"
    by (simp add: twoBlocksPage_def page_defs js_def)
  then show ?thesis
    unfolding insertedRows_fixedEnvironment scanHeader_twoBlocksPage
    by (simp add: hasNumberAndAddress_def)
qed

text \<open>
  Claim C8.  In every run the requests are, in this order: the main page, sent with the
  fresh jar; and, only when that request has come back with an answer, the search page,
  sent with the jar as the main-page answer has left it.  There is no other request, and
  no search request with another jar.
\<close>

theorem search_request_follows_main_with_its_jar:
  "httpRequests (fst (main env)) =
     (case request env DevelopmentApplicationMainUrl (newJar env) of
        Inl e \<Rightarrow> [(DevelopmentApplicationMainUrl, newJar env)]
      | Inr (mainBody, jar1) \<Rightarrow>
          [(DevelopmentApplicationMainUrl, newJar env),
           (developmentApplicationSearchUrl (now env), jar1)])"
  by (simp add: main_cases httpRequests_processHeaders split: sum.splits prod.splits)

theorem search_request_follows_main_with_its_jar_witness:
  "httpRequests (fst (main (fixedEnvironment carportPage))) =
     [(DevelopmentApplicationMainUrl, []),
      (developmentApplicationSearchUrl (Valid 2023 8 5), [DevelopmentApplicationMainUrl])]"
  using search_request_follows_main_with_its_jar [of "fixedEnvironment carportPage"]
  by (simp add: fixedEnvironment_def)

lemma scanHeader_twoHeadingsPage:
  "map scanHeader (selectAll (js ''h4'') (js ''non_table_headers'') twoHeadingsPage) =
     [\<lparr>address_v = js ''12 Smith St'', applicationNumber_v = js ''123/2023'',
       reason_v = [], receivedDate_v = Invalid\<rparr>,
      \<lparr>address_v = js ''14 Smith St'', applicationNumber_v = [],
       reason_v = js ''Verandah'', receivedDate_v = Invalid\<rparr>]"
  by (simp add: twoHeadingsPage_def page_defs scan_defs date_defs)

text \<open>
  The test of line 105.  The rows handed to \<open>insertRow\<close> always have a non-empty
  application number and a non-empty address.  When both requests are answered, the rows
  handed over are, in order, the rows of the headings whose application number and
  address are both non-empty, up to the first write that sqlite rejects (which ends the
  run); when no write is rejected they are all of them.  The test reads neither the
  reason nor the date of the heading.
\<close>

theorem forwarded_iff_number_and_address:
  "(\<forall>r\<in>set (insertedRows (fst (main env))). applicationNumber r \<noteq> [] \<and> address r \<noteq> []) \<and>
   (request env DevelopmentApplicationMainUrl (newJar env) = Inr (mainBody, jar1) \<and>
    request env (developmentApplicationSearchUrl (now env)) jar1 = Inr (body, jar2) \<longrightarrow>
      prefix (insertedRows (fst (main env)))
        (map (makeRow env)
          (filter (\<lambda>v. applicationNumber_v v \<noteq> [] \<and> address_v v \<noteq> [])
            (map scanHeader
              (selectAll (js ''h4'') (js ''non_table_headers'') (cheerioLoad env body))))) \<and>
      ((\<forall>r. \<not> sqliteFails env r) \<longrightarrow>
        insertedRows (fst (main env)) =
          map (makeRow env)
            (filter (\<lambda>v. applicationNumber_v v \<noteq> [] \<and> address_v v \<noteq> [])
              (map scanHeader
                (selectAll (js ''h4'') (js ''non_table_headers'') (cheerioLoad env body))))))"
proof -
  have f: "(\<lambda>v. applicationNumber_v v \<noteq> [] \<and> address_v v \<noteq> []) = hasNumberAndAddress"
    by (simp add: hasNumberAndAddress_def fun_eq_iff)
  have p: "\<forall>r\<in>set (insertedRows (fst (processHeaders env hs db))).
             applicationNumber r \<noteq> [] \<and> address r \<noteq> []" for hs db
  proof -
    have "set (insertedRows (fst (processHeaders env hs db)))
          \<subseteq> set (map (makeRow env) (filter hasNumberAndAddress (map scanHeader hs)))"
      using insertedRows_processHeaders_prefix by (rule set_mono_prefix)
    then show ?thesis by (auto simp: makeRow_fields hasNumberAndAddress_def)
  qed
  have 1: "\<forall>r\<in>set (insertedRows (fst (main env))). applicationNumber r \<noteq> [] \<and> address r \<noteq> []"
    using p by (simp add: main_cases split: sum.splits prod.splits)
  show ?thesis
    unfolding f using 1
    by (auto simp: main_cases insertedRows_processHeaders_prefix insertedRows_processHeaders_all)
qed

theorem forwarded_iff_number_and_address_witness:
  "insertedRows (fst (main (fixedEnvironment twoHeadingsPage))) =
     [makeRow (fixedEnvironment twoHeadingsPage)
        \<lparr>address_v = js ''12 Smith St'', applicationNumber_v = js ''123/2023'',
         reason_v = [], receivedDate_v = Invalid\<rparr>]"
proof -
  let ?env = "fixedEnvironment twoHeadingsPage"
  have 1: "request ?env DevelopmentApplicationMainUrl (newJar ?env)
            = Inr ([], [DevelopmentApplicationMainUrl])"
    by (simp add: fixedEnvironment_fields)
  have 2: "request ?env (developmentApplicationSearchUrl (now ?env)) [DevelopmentApplicationMainUrl]
            = Inr ([], [DevelopmentApplicationMainUrl, developmentApplicationSearchUrl (now ?env)])"
    by (simp add: fixedEnvironment_fields)
  have 3: "\<forall>r. \<not> sqliteFails ?env r" by (simp add: fixedEnvironment_fields)
  have 4: "js ''123/2023'' \<noteq> [] \<and> js ''12 Smith St'' \<noteq> []" by (simp add: js_def)
  show ?thesis
    using forwarded_iff_number_and_address
      [of ?env "[]" "[DevelopmentApplicationMainUrl]" "[]"
          "[DevelopmentApplicationMainUrl, developmentApplicationSearchUrl (now ?env)]"]
      1 2 3 4
    by (simp add: fixedEnvironment_fields scanHeader_twoHeadingsPage)
qed

section \<open>Dates of the rows\<close>

lemma scanHeader_carportPage:
  "map scanHeader (selectAll (js ''h4'') (js ''non_table_headers'') carportPage) =
     [\<lparr>address_v = js ''12 Smith St'', applicationNumber_v = js ''123/2023'',
       reason_v = js ''Carport'', receivedDate_v = Invalid\<rparr>]"
  by (simp add: carportPage_def page_defs scan_defs date_defs)

lemma scanHeader_carportPageTwoDigitMonth:
  "map scanHeader (selectAll (js ''h4'') (js ''non_table_headers'') carportPageTwoDigitMonth) =
     [\<lparr>address_v = js ''12 Smith St'', applicationNumber_v = js ''123/2023'',
       reason_v = js ''Carport'', receivedDate_v = Valid 2023 1 3\<rparr>]"
  by (simp add: carportPageTwoDigitMonth_def page_defs scan_defs date_defs)

lemma scanHeader_noDatePage:
  "map scanHeader (selectAll (js ''h4'') (js ''non_table_headers'') noDatePage) =
     [\<lparr>address_v = js ''1 Main St'', applicationNumber_v = js ''1/2023'',
       reason_v = [], receivedDate_v = Invalid\<rparr>]"
  by (simp add: noDatePage_def page_defs scan_defs date_defs)

lemma scanHeader_badDatePage:
  "map scanHeader (selectAll (js ''h4'') (js ''non_table_headers'') badDatePage) =
     [\<lparr>address_v = js ''1 Main St'', applicationNumber_v = js ''1/2023'',
       reason_v = [], receivedDate_v = Invalid\<rparr>]"
  by (simp add: badDatePage_def page_defs scan_defs date_defs)

lemma makeRow_receivedDate_Invalid:
  "receivedDate_v v = Invalid \<Longrightarrow> receivedDate (makeRow env v) = js ''Invalid date''"
  by (simp add: makeRow_fields)

lemma makeRow_receivedDate_never_empty: "receivedDate (makeRow env v) \<noteq> []"
  by (cases "receivedDate_v v") (simp_all add: makeRow_fields pad4_def js_def)

text \<open>
  Claim C1.  The script writes \<open>receivedDate.isValid\<close> without calling it, so the
  condition of line 112 holds for every moment and the date is always formatted.  On a
  page whose block has no \<open>Date Lodged\<close> row, and on one whose date is \<open>not a date\<close>,
  the row that is written has the received date \<open>Invalid date\<close>, which is neither the
  empty string nor a date.
\<close>

theorem receivedDate_is_Invalid_date_without_valid_date:
  "map receivedDate (insertedRows (fst (main (fixedEnvironment noDatePage)))) = [js ''Invalid date''] \<and>
   map receivedDate (insertedRows (fst (main (fixedEnvironment badDatePage)))) = [js ''Invalid date''] \<and>
   js ''Invalid date'' \<noteq> []"
  unfolding insertedRows_fixedEnvironment scanHeader_noDatePage scanHeader_badDatePage
  by (simp add: hasNumberAndAddress_def makeRow_fields js_def)

lemma forwarded_receivedDate_never_empty:
  "\<forall>r\<in>set (insertedRows (fst (main env))). receivedDate r \<noteq> []"
proof -
  have p: "\<forall>r\<in>set (insertedRows (fst (processHeaders env hs db))). receivedDate r \<noteq> []" for hs db
  proof -
    have "set (insertedRows (fst (processHeaders env hs db)))
          \<subseteq> set (map (makeRow env) (filter hasNumberAndAddress (map scanHeader hs)))"
      using insertedRows_processHeaders_prefix by (rule set_mono_prefix)
    then show ?thesis using makeRow_receivedDate_never_empty by auto
  qed
  then show ?thesis
    by (simp add: main_cases split: sum.splits prod.splits)
qed

text \<open>
  Claim C2.  The script hands a heading's row to \<open>insertRow\<close> exactly when its
  application number and address are both non-empty
  (\<open>forwarded_iff_number_and_address\<close>), and the reason of a row that is handed over
  may be empty.  Its received date is never empty, in any run
  (\<open>forwarded_receivedDate_never_empty\<close>): on the page with two headings, of which
  the first has an application number and neither a \<open>Type of Work\<close> nor a
  \<open>Date Lodged\<close> row, the one row that is written has an empty reason and the
  received date \<open>Invalid date\<close>, where line 112 is written to give the empty string.
\<close>

theorem forwarded_row_without_date_row_has_Invalid_date:
  "map applicationNumber (insertedRows (fst (main (fixedEnvironment twoHeadingsPage))))
     = [js ''123/2023''] \<and>
   map reason (insertedRows (fst (main (fixedEnvironment twoHeadingsPage)))) = [ [] ] \<and>
   map receivedDate (insertedRows (fst (main (fixedEnvironment twoHeadingsPage))))
     = [js ''Invalid date''] \<and>
   js ''Invalid date'' \<noteq> []"
  unfolding insertedRows_fixedEnvironment scanHeader_twoHeadingsPage
  by (simp add: hasNumberAndAddress_def makeRow_fields js_def)

text \<open>
  Claim C9, as the script has it.  For the page with the rows \<open>Application No.\<close> =
  \<open>123/2023\<close>, \<open>Type of Work\<close> = \<open>Carport\<close>, \<open>Date Lodged\<close> = \<open>3/1/2023\<close> under
  the heading \<open>12  Smith   St\<close>, the received date of the row that is written is not
  \<open>2023-01-03\<close>.
\<close>

theorem carportPage_receivedDate_counterexample:
  "map receivedDate (insertedRows (fst (main (fixedEnvironment carportPage)))) \<noteq> [js ''2023-01-03'']"
  unfolding insertedRows_fixedEnvironment scanHeader_carportPage
  by (simp add: hasNumberAndAddress_def makeRow_fields js_def)

text \<open>
  Claim C9, amended.  For that page exactly one row is written, with the application
  number \<open>123/2023\<close>, the address \<open>12 Smith St\<close> and the reason \<open>Carport\<close>; the
  strict pattern does not accept the one-digit month of \<open>3/1/2023\<close>, so the date of
  the heading stays the invalid moment.  With the month written with two digits,
  \<open>3/01/2023\<close>, the received date of the row is \<open>2023-01-03\<close>.
\<close>

theorem carportPage_forwarded_record:
  "map applicationNumber (insertedRows (fst (main (fixedEnvironment carportPage)))) = [js ''123/2023''] \<and>
   map address (insertedRows (fst (main (fixedEnvironment carportPage)))) = [js ''12 Smith St''] \<and>
   map reason (insertedRows (fst (main (fixedEnvironment carportPage)))) = [js ''Carport''] \<and>
   parseDateStrict (js ''3/1/2023'') = Invalid \<and>
   map receivedDate_v (map scanHeader (selectAll (js ''h4'') (js ''non_table_headers'') carportPage))
     = [Invalid] \<and>
   map receivedDate (insertedRows (fst (main (fixedEnvironment carportPageTwoDigitMonth))))
     = [js ''2023-01-03'']"
proof -
  have "parseDateStrict (js ''3/1/2023'') = Invalid"
    by (simp add: date_defs js_def)
  moreover have "format_YYYY_MM_DD (Valid 2023 1 3) = js ''2023-01-03''"
    by (simp add: pad2_def pad4_def digitChar_def js_def)
  ultimately show ?thesis
    unfolding insertedRows_fixedEnvironment scanHeader_carportPage
      scanHeader_carportPageTwoDigitMonth
    by (simp add: hasNumberAndAddress_def makeRow_fields) (simp add: js_def)
qed

text \<open>
  Claim C6.  The strict parse with the pattern \<open>D/MM/YYYY\<close> reads a day with a leading
  zero as the same day without it: \<open>5/08/2023\<close> and \<open>05/08/2023\<close> both give the
  date 5 August 2023, which is rendered as \<open>2023-08-05\<close>.  An input that is no date,
  such as \<open>not a date\<close>, gives the invalid moment; the parse is a total function and
  has no other outcome.
\<close>

theorem parseDateStrict_day_leading_zero:
  "(isDigit c \<longrightarrow> parseDateStrict (0x30 # c # 0x2F # r) = parseDateStrict (c # 0x2F # r)) \<and>
   parseDateStrict (js ''5/08/2023'') = Valid 2023 8 5 \<and>
   parseDateStrict (js ''05/08/2023'') = Valid 2023 8 5 \<and>
   format_YYYY_MM_DD (Valid 2023 8 5) = js ''2023-08-05'' \<and>
   parseDateStrict (js ''not a date'') = Invalid"
proof -
  have z: "toInt [0x30, c] = toInt [c]"
    by (simp add: toInt_def)
  have s: "\<not> isDigit 0x2F" "isDigit 0x30"
    by (simp_all add: isDigit_def)
  have "parseDateStrict (0x30 # c # 0x2F # r) = parseDateStrict (c # 0x2F # r)" if "isDigit c"
    using that s by (simp add: parseDateStrict_def z split: option.splits prod.splits)
  moreover have "parseDateStrict (js ''5/08/2023'') = Valid 2023 8 5"
    by (simp add: date_defs js_def)
  moreover have "parseDateStrict (js ''05/08/2023'') = Valid 2023 8 5"
    by (simp add: date_defs js_def)
  moreover have "format_YYYY_MM_DD (Valid 2023 8 5) = js ''2023-08-05''"
    by (simp add: pad2_def pad4_def digitChar_def js_def)
  moreover have "parseDateStrict (js ''not a date'') = Invalid"
    by (simp add: date_defs js_def)
  ultimately show ?thesis by blast
qed

theorem parseDateStrict_day_leading_zero_witness:
  "isDigit 0x39 \<and> parseDateStrict (js ''09/12/2022'') = parseDateStrict (js ''9/12/2022'') \<and>
   parseDateStrict (js ''9/12/2022'') = Valid 2022 12 9"
proof -
  have d: "isDigit 0x39" by (simp add: isDigit_def)
  have "parseDateStrict (js ''9/12/2022'') = Valid 2022 12 9"
    by (simp add: date_defs js_def)
  then show ?thesis
    using d parseDateStrict_day_leading_zero [of "0x39" "js ''12/2022''"]
    by (simp add: js_def)
qed

end
